theory Spec2Isabelle
  imports Complex_Main "HOL-Library.Word"
begin

section \<open>JavaScript primitives used by game.js\<close>

text \<open>
  \<open>Array.prototype.indexOf\<close>: the position of the first element strictly equal to the
  argument, scanning from position 0, and \<open>-1\<close> when there is none.
\<close>

fun indexOf_from :: "'a list \<Rightarrow> 'a \<Rightarrow> int \<Rightarrow> int" where
  "indexOf_from [] x k = - 1"
| "indexOf_from (y # ys) x k = (if y = x then k else indexOf_from ys x (k + 1))"

definition indexOf :: "'a list \<Rightarrow> 'a \<Rightarrow> int" where
  "indexOf xs x = indexOf_from xs x 0"

text \<open>
  The remainder operator \<open>%\<close> on integer-valued numbers: the result has the sign of the
  dividend (the quotient is truncated), and a zero divisor gives \<open>NaN\<close>, here \<open>None\<close>.
  Every comparison with \<open>NaN\<close> is false.
\<close>

definition js_rem :: "int \<Rightarrow> int \<Rightarrow> int option" where
  "js_rem a n = (if n = 0 then None else Some (sgn a * (\<bar>a\<bar> mod \<bar>n\<bar>)))"

definition js_le :: "int \<Rightarrow> int option \<Rightarrow> bool" where
  "js_le a r = (case r of None \<Rightarrow> False | Some b \<Rightarrow> a \<le> b)"

text \<open>
  The same two operations on numbers that need not be integers. The only such number
  in the program is \<open>(moves.length - 1) / 2\<close> and sums of it with an index: multiples of
  one half far below \<open>2^53\<close>, which a double holds exactly, so rationals model them.
\<close>

definition truncq :: "rat \<Rightarrow> int" where
  "truncq q = (if 0 \<le> q then \<lfloor>q\<rfloor> else \<lceil>q\<rceil>)"

definition js_rem_num :: "rat \<Rightarrow> rat \<Rightarrow> rat option" where
  "js_rem_num a n = (if n = 0 then None else Some (a - n * of_int (truncq (a / n))))"

definition js_le_num :: "rat \<Rightarrow> rat option \<Rightarrow> bool" where
  "js_le_num a r = (case r of None \<Rightarrow> False | Some b \<Rightarrow> a \<le> b)"


section \<open>MoveRules\<close>

text \<open>
  \<open>MoveRules.determineWinner(userMove, computerMove)\<close>, with \<open>this.moves\<close> as the first
  argument. \<open>Math.floor((n - 1) / 2)\<close> is the floored integer quotient. The function is
  polymorphic in the type of a move: the moves are strings, and \<open>Game.play\<close> may pass
  \<open>undefined\<close> as well.
\<close>

definition determineWinner :: "'a list \<Rightarrow> 'a \<Rightarrow> 'a \<Rightarrow> string" where
  "determineWinner moves userMove computerMove =
     (let half = (int (length moves) - 1) div 2;
          index = indexOf moves userMove;
          moveIndex = indexOf moves computerMove
      in if userMove = computerMove then ''Draw''
         else if (moveIndex \<ge> index + 1 \<and> moveIndex \<le> index + half) \<or>
                 (index + half \<ge> int (length moves) \<and>
                  js_le moveIndex (js_rem (index + half) (int (length moves))))
         then ''Computer wins!''
         else ''You win!'')"


section \<open>HelpTableGenerator\<close>

text \<open>
  \<open>HelpTableGenerator.determineResult(move1, move2)\<close>. Unlike \<open>determineWinner\<close> it does
  not floor \<open>(n - 1) / 2\<close>.
\<close>

definition determineResult :: "'a list \<Rightarrow> 'a \<Rightarrow> 'a \<Rightarrow> string" where
  "determineResult moves move1 move2 =
     (let half = (of_nat (length moves) - 1) / (2 :: rat);
          index = indexOf moves move1;
          moveIndex = indexOf moves move2
      in if move1 = move2 then ''Draw''
         else if (of_int moveIndex \<ge> of_int index + (1 :: rat) \<and> of_int moveIndex \<le> of_int index + half) \<or>
                 (of_int index + half \<ge> of_nat (length moves) \<and>
                  js_le_num (of_int moveIndex) (js_rem_num (of_int index + half) (of_nat (length moves))))
         then ''Lose''
         else ''Win'')"

text \<open>
  \<open>generateHelpTable(moves)\<close>: the header row, then one row per move holding the move
  and its result against every move, in order.
\<close>

definition generateHelpTable :: "string list \<Rightarrow> string list \<Rightarrow> string list list" where
  "generateHelpTable this_moves moves =
     (''PC Moves'' # moves) # map (\<lambda>mi. mi # map (\<lambda>mj. determineResult this_moves mi mj) moves) moves"


section \<open>KeyGenerator and HmacGenerator\<close>

text \<open>
  \<open>crypto.randomBytes(32).toString('hex')\<close>: the random bytes are an input of the model;
  each byte is written as two lowercase hexadecimal digits.
\<close>

definition hex_digit :: "nat \<Rightarrow> char" where
  "hex_digit d = ''0123456789abcdef'' ! (d mod 16)"

definition hex_byte :: "8 word \<Rightarrow> string" where
  "hex_byte b = [hex_digit (unat b div 16), hex_digit (unat b mod 16)]"

definition generateKey :: "8 word list \<Rightarrow> string" where
  "generateKey randomBytes = concat (map hex_byte randomBytes)"

text \<open>
  The keyed hash of \<open>crypto.createHmac('sha256', key)\<close> is outside the program: it is the
  parameter \<open>H\<close>, from the key and the message to the hexadecimal digest. A JavaScript
  value that is a string or \<open>undefined\<close> is a \<open>string option\<close>, \<open>None\<close> being \<open>undefined\<close>;
  \<open>hmac.update(undefined)\<close> throws a \<open>TypeError\<close>.
\<close>

datatype error = TypeError

type_synonym hmac_fn = "string \<Rightarrow> string \<Rightarrow> string"

definition HmacGenerator_generateHmac :: "hmac_fn \<Rightarrow> string \<Rightarrow> string option \<Rightarrow> error + string" where
  "HmacGenerator_generateHmac H key move =
     (case move of None \<Rightarrow> Inl TypeError | Some m \<Rightarrow> Inr (H key m))"


section \<open>Game\<close>

text \<open>
  Reading an array at an index: \<open>undefined\<close> outside the array.
\<close>

definition array_get :: "'a list \<Rightarrow> nat \<Rightarrow> 'a option" where
  "array_get xs i = (if i < length xs then Some (xs ! i) else None)"

text \<open>A value inside a template literal: \<open>undefined\<close> prints as the word.\<close>

definition js_str :: "string option \<Rightarrow> string" where
  "js_str v = (case v of None \<Rightarrow> ''undefined'' | Some s \<Rightarrow> s)"

text \<open>A natural number inside a template literal: its decimal digits.\<close>

definition dec_digit :: "nat \<Rightarrow> char" where
  "dec_digit d = ''0123456789'' ! (d mod 10)"

fun show_nat :: "nat \<Rightarrow> string" where
  "show_nat n = (if n < 10 then [dec_digit n] else show_nat (n div 10) @ [dec_digit (n mod 10)])"

declare show_nat.simps [simp del]

text \<open>
  The fields of a \<open>Game\<close> that hold data. \<open>moveRules\<close> and \<open>helpTableGenerator\<close> hold the
  same array as \<open>moves\<close>, which nothing mutates; the two generators have no fields.
\<close>

record game =
  moves :: "string list"
  hmacKey :: string
  computerMove :: "string option"

text \<open>
  The constructor. \<open>randomBytes\<close> is what \<open>crypto.randomBytes(32)\<close> returns and \<open>r\<close> is the
  value of \<open>Math.floor(Math.random() * this.moves.length)\<close>, an index below the length
  of a non-empty array.
\<close>

definition new_Game :: "string list \<Rightarrow> 8 word list \<Rightarrow> nat \<Rightarrow> game" where
  "new_Game ms randomBytes r =
     \<lparr>moves = ms, hmacKey = generateKey randomBytes, computerMove = array_get ms r\<rparr>"

definition generateHmac :: "hmac_fn \<Rightarrow> game \<Rightarrow> string option \<Rightarrow> error + string" where
  "generateHmac H g move = HmacGenerator_generateHmac H (hmacKey g) move"

definition isMoveValid :: "game \<Rightarrow> string option \<Rightarrow> bool" where
  "isMoveValid g move = (move \<in> set (map Some (moves g)))"

text \<open>
  \<open>showMenu\<close> prints; the model returns the lines, one per \<open>console.log\<close>. The digest is
  computed from the fields \<open>hmacKey\<close> and \<open>computerMove\<close>; the method declares no
  parameter, so the argument \<open>play\<close> passes to it is ignored.
\<close>

definition showMenu :: "hmac_fn \<Rightarrow> game \<Rightarrow> error + string list" where
  "showMenu H g =
     (case generateHmac H g (computerMove g) of
        Inl e \<Rightarrow> Inl e
      | Inr h \<Rightarrow>
          Inr ([''HMAC: '' @ h, ''Available moves:'']
               @ map (\<lambda>(index, move). show_nat (index + 1) @ '' - '' @ move) (enumerate 0 (moves g))
               @ [''0 - exit'', ''? - help'']))"

text \<open>
  \<open>play(userMove)\<close> with \<open>r\<close> the index drawn by its first statement. It returns the game
  after the call and the lines printed, or the exception thrown.
\<close>

definition play :: "hmac_fn \<Rightarrow> game \<Rightarrow> nat \<Rightarrow> string option \<Rightarrow> error + game \<times> string list" where
  "play H g r userMove =
     (let g1 = g\<lparr>computerMove := array_get (moves g) r\<rparr> in
      case generateHmac H g1 (computerMove g1) of
        Inl e \<Rightarrow> Inl e
      | Inr hmac \<Rightarrow>
          if \<not> isMoveValid g1 userMove then
            (case showMenu H g1 of
               Inl e \<Rightarrow> Inl e
             | Inr menu \<Rightarrow> Inr (g1, (''Invalid move. Please try again.'' @ [CHR 0x0A]) # menu))
          else
            (let result = determineWinner (map Some (moves g1)) userMove (computerMove g1) in
             case showMenu H g1 of
               Inl e \<Rightarrow> Inl e
             | Inr menu \<Rightarrow>
                 Inr (g1, [''HMAC: '' @ hmac,
                           ''Your move: '' @ js_str userMove,
                           ''Computer move: '' @ js_str (computerMove g1),
                           result,
                           ''HMAC key: '' @ hmacKey g1 @ [CHR 0x0A]] @ menu)))"


section \<open>Program entry\<close>

text \<open>
  The top level of the module up to the first prompt: \<open>argv\<close> is \<open>process.argv\<close>. Either the
  two lines of the refusal are printed and nothing else happens, or a \<open>Game\<close> is
  constructed and its menu shown.
\<close>

datatype startup = Rejected "string list" | Started game "string list"

definition main :: "hmac_fn \<Rightarrow> string list \<Rightarrow> 8 word list \<Rightarrow> nat \<Rightarrow> error + startup" where
  "main H argv randomBytes r =
     (let ms = drop 2 argv in
      if length ms < 3 \<or> length ms mod 2 \<noteq> 1 \<or> card (set ms) \<noteq> length ms then
        Inr (Rejected [''Invalid moves. Please provide an odd number of unique moves.'',
                       ''Example: node game.js rock paper scissors''])
      else
        (let game = new_Game ms randomBytes r in
         case showMenu H game of
           Inl e \<Rightarrow> Inl e
         | Inr menu \<Rightarrow> Inr (Started game menu)))"

text \<open>
  A stand-in for the keyed hash in concrete runs. It is injective in the pair of key and
  message whenever the key has no \<open>|\<close>, as a hexadecimal key has not.
\<close>

definition hmac_stub :: hmac_fn where
  "hmac_stub key move = key @ ''|'' @ move"


section \<open>Concrete inputs\<close>

text \<open>
  The two move sets of the specification's scenarios, 32 random bytes, the part of the
  menu below its first line for the classic move set, and the game constructed from them
  when the first draw is index 0.
\<close>

abbreviation rps :: "string list" where
  "rps \<equiv> [''rock'', ''paper'', ''scissors'']"

abbreviation rpsls :: "string list" where
  "rpsls \<equiv> [''rock'', ''spock'', ''paper'', ''lizard'', ''scissors'']"

abbreviation sample_bytes :: "8 word list" where
  "sample_bytes \<equiv> replicate 32 0x5c"

abbreviation menu_rest :: "string list" where
  "menu_rest \<equiv> [''Available moves:'', ''1 - rock'', ''2 - paper'', ''3 - scissors'', ''0 - exit'', ''? - help'']"

abbreviation game0 :: game where
  "game0 \<equiv> \<lparr>moves = rps, hmacKey = generateKey sample_bytes, computerMove = Some ''rock''\<rparr>"


section \<open>Facts about the primitives\<close>

subsection \<open>Positions in an array without duplicates\<close>

lemma indexOf_from_notin: "x \<notin> set xs \<Longrightarrow> indexOf_from xs x k = - 1"
  by (induction xs arbitrary: k) auto

lemma indexOf_from_nth:
  "distinct xs \<Longrightarrow> i < length xs \<Longrightarrow> indexOf_from xs (xs ! i) k = k + int i"
proof (induction xs arbitrary: i k)
  case Nil
  then show ?case by simp
next
  case (Cons y ys)
  show ?case
  proof (cases i)
    case 0
    then show ?thesis by simp
  next
    case (Suc m)
    with Cons.prems have m: "m < length ys" and d: "distinct ys" and ne: "y \<noteq> ys ! m"
      by auto
    from Cons.IH [OF d m, of "k + 1"] Suc ne show ?thesis by simp
  qed
qed

lemma indexOf_nth: "distinct xs \<Longrightarrow> i < length xs \<Longrightarrow> indexOf xs (xs ! i) = int i"
  by (simp add: indexOf_def indexOf_from_nth)

lemma indexOf_notin: "x \<notin> set xs \<Longrightarrow> indexOf xs x = - 1"
  by (simp add: indexOf_def indexOf_from_notin)

subsection \<open>Remainders one period away\<close>

lemma js_rem_nonneg: "0 \<le> a \<Longrightarrow> 0 < n \<Longrightarrow> js_rem a n = Some (a mod n)"
  by (cases "a = 0") (simp_all add: js_rem_def)

lemma mod_second_period:
  fixes x n :: int
  assumes "n \<le> x" "x < 2 * n"
  shows "x mod n = x - n"
proof -
  have "(x - n) mod n = x - n"
    using assms by (intro mod_pos_pos_trivial) simp_all
  then show ?thesis by simp
qed

lemma mod_below_period:
  fixes x n :: int
  assumes "- n \<le> x" "x < 0"
  shows "x mod n = x + n"
proof -
  have "(x + n) mod n = x + n"
    using assms by (intro mod_pos_pos_trivial) simp_all
  then show ?thesis by simp
qed

lemma window_cond:
  fixes i j h n :: int
  assumes n: "n = 2 * h + 1" and i: "0 \<le> i" "i < n" and j: "0 \<le> j" "j < n" and ne: "i \<noteq> j"
  shows "((j \<ge> i + 1 \<and> j \<le> i + h) \<or> (i + h \<ge> n \<and> js_le j (js_rem (i + h) n)))
         \<longleftrightarrow> (j - i - 1) mod n < h"
proof -
  have h: "0 \<le> h" using n i by linarith
  have npos: "0 < n" using i by linarith
  have rem: "js_rem (i + h) n = Some ((i + h) mod n)"
    using i h npos by (intro js_rem_nonneg) simp_all
  have wrap: "i + h \<ge> n \<Longrightarrow> (i + h) mod n = i + h - n"
    using i h n by (intro mod_second_period) simp_all
  have cond2: "(i + h \<ge> n \<and> js_le j (js_rem (i + h) n)) \<longleftrightarrow> (i + h \<ge> n \<and> j \<le> i + h - n)"
    using wrap by (auto simp: rem js_le_def)
  show ?thesis
  proof (cases "i < j")
    case True
    then have a: "(j - i - 1) mod n = j - i - 1"
      using i j by (intro mod_pos_pos_trivial) simp_all
    show ?thesis unfolding cond2 a using True n h by arith
  next
    case False
    with ne have lt: "j < i" by simp
    then have a: "(j - i - 1) mod n = j - i - 1 + n"
      using i j by (intro mod_below_period) simp_all
    show ?thesis unfolding cond2 a using lt j n h by arith
  qed
qed

lemma window_flip:
  fixes i j h n :: int
  assumes n: "n = 2 * h + 1" and i: "0 \<le> i" "i < n" and j: "0 \<le> j" "j < n" and ne: "i \<noteq> j"
  shows "(j - i - 1) mod n < h \<longleftrightarrow> \<not> (i - j - 1) mod n < h"
proof (cases "i < j")
  case True
  then have a: "(j - i - 1) mod n = j - i - 1"
    using i j by (intro mod_pos_pos_trivial) simp_all
  from True have b: "(i - j - 1) mod n = i - j - 1 + n"
    using i j by (intro mod_below_period) simp_all
  show ?thesis unfolding a b using n by linarith
next
  case False
  with ne have lt: "j < i" by simp
  then have a: "(j - i - 1) mod n = j - i - 1 + n"
    using i j by (intro mod_below_period) simp_all
  from lt have b: "(i - j - 1) mod n = i - j - 1"
    using i j by (intro mod_pos_pos_trivial) simp_all
  show ?thesis unfolding a b using n by linarith
qed


section \<open>The comparator on a valid move set\<close>

text \<open>
  With \<open>n = 2 h + 1\<close> distinct moves, the move at position \<open>i\<close> against the move at
  another position \<open>j\<close>: the computer wins exactly when \<open>j\<close> is one of the \<open>h\<close> positions
  that follow \<open>i\<close> cyclically.
\<close>

lemmas comparator_defs =
  determineWinner_def determineResult_def indexOf_def js_le_def js_rem_def
  js_le_num_def js_rem_num_def truncq_def

lemma determineWinner_range:
  "determineWinner ms a b = ''Draw'' \<or> determineWinner ms a b = ''Computer wins!'' \<or>
   determineWinner ms a b = ''You win!''"
  by (simp add: determineWinner_def Let_def)

lemma odd_length_half:
  assumes "odd (length ms)"
  obtains h where "length ms = 2 * h + 1" and "(int (length ms) - 1) div 2 = int h"
    and "(length ms - 1) div 2 = h"
proof -
  from assms obtain h where h: "length ms = 2 * h + 1" by (elim oddE)
  then have "(int (length ms) - 1) div 2 = int h" and "(length ms - 1) div 2 = h"
    by simp_all
  with h show thesis by (rule that)
qed

lemma half_of_odd: "(int (2 * h + 1) - 1) div 2 = int h"
  by simp

lemma determineWinner_index:
  assumes d: "distinct ms" and n: "length ms = 2 * h + 1"
    and i: "i < length ms" and j: "j < length ms" and ne: "i \<noteq> j"
  shows "determineWinner ms (ms ! i) (ms ! j) =
           (if (int j - int i - 1) mod int (length ms) < int h then ''Computer wins!'' else ''You win!'')"
proof -
  have neq: "ms ! i \<noteq> ms ! j"
    using d i j ne by (simp add: nth_eq_iff_index_eq)
  have half: "(int (length ms) - 1) div 2 = int h"
    using n by simp
  have w: "((int j \<ge> int i + 1 \<and> int j \<le> int i + int h) \<or>
            (int i + int h \<ge> int (length ms) \<and> js_le (int j) (js_rem (int i + int h) (int (length ms)))))
           \<longleftrightarrow> (int j - int i - 1) mod int (length ms) < int h"
    using n i j ne by (intro window_cond) simp_all
  show ?thesis
    unfolding determineWinner_def Let_def half indexOf_nth [OF d i] indexOf_nth [OF d j]
    using neq w by simp
qed

subsection \<open>Counting a cyclic window\<close>

lemma card_window:
  fixes c :: int
  assumes n: "0 < n" and h: "h \<le> n"
  shows "card {j::nat. j < n \<and> (int j - c) mod int n < int h} = h"
proof -
  define g where "g k = nat ((int k + c) mod int n)" for k :: nat
  define f where "f j = nat ((int j - c) mod int n)" for j :: nat
  have npos: "0 < int n" using n by simp
  have fg: "f (g k) = k" if "k < h" for k
  proof -
    have "(int (g k) - c) mod int n = ((int k + c) mod int n - c) mod int n"
      using npos by (simp add: g_def)
    also have "\<dots> = (int k + c - c) mod int n"
      by (simp only: mod_diff_left_eq)
    also have "\<dots> = int k"
      using that h by simp
    finally show ?thesis by (simp add: f_def)
  qed
  have gf: "g (f j) = j" if "j < n" for j
  proof -
    have "(int (f j) + c) mod int n = ((int j - c) mod int n + c) mod int n"
      using npos by (simp add: f_def)
    also have "\<dots> = (int j - c + c) mod int n"
      by (simp only: mod_add_left_eq)
    also have "\<dots> = int j"
      using that by simp
    finally show ?thesis by (simp add: g_def)
  qed
  have "{j. j < n \<and> (int j - c) mod int n < int h} = g ` {0..<h}"
  proof (intro set_eqI iffI)
    fix j assume "j \<in> {j. j < n \<and> (int j - c) mod int n < int h}"
    then have jn: "j < n" and lt: "(int j - c) mod int n < int h" by simp_all
    have "0 \<le> (int j - c) mod int n" using npos by simp
    then have "f j < h" using lt by (simp add: f_def nat_less_iff)
    moreover have "g (f j) = j" using jn by (rule gf)
    ultimately show "j \<in> g ` {0..<h}" by force
  next
    fix j assume "j \<in> g ` {0..<h}"
    then obtain k where k: "k < h" and j: "j = g k" by auto
    have "0 \<le> (int k + c) mod int n" and "(int k + c) mod int n < int n"
      using npos by simp_all
    then have "j < n" by (simp add: j g_def nat_less_iff)
    moreover have "int (f j) = (int j - c) mod int n"
      using npos by (simp add: f_def)
    then have "(int j - c) mod int n < int h"
      using fg [OF k] k j by simp
    ultimately show "j \<in> {j. j < n \<and> (int j - c) mod int n < int h}" by simp
  qed
  moreover have "inj_on g {0..<h}"
    by (rule inj_on_inverseI [where g = f]) (simp add: fg)
  ultimately show ?thesis by (simp add: card_image)
qed

lemma count_computer_wins:
  assumes d: "distinct ms" and n: "length ms = 2 * h + 1" and i: "i < length ms"
  shows "length (filter (\<lambda>x. x \<noteq> ms ! i \<and> determineWinner ms (ms ! i) x = ''Computer wins!'') ms) = h"
proof -
  have self: "\<not> (int i - (int i + 1)) mod int (length ms) < int h"
  proof -
    have "(- 1 :: int) mod int (length ms) = - 1 + int (length ms)"
      using n by (intro mod_below_period) simp_all
    then show ?thesis using n by simp
  qed
  have "{j. j < length ms \<and> (ms ! j \<noteq> ms ! i \<and> determineWinner ms (ms ! i) (ms ! j) = ''Computer wins!'')}
        = {j. j < length ms \<and> (int j - (int i + 1)) mod int (length ms) < int h}"
  proof (intro set_eqI iffI; clarsimp)
    fix j assume j: "j < length ms" and ne: "ms ! j \<noteq> ms ! i"
      and w: "determineWinner ms (ms ! i) (ms ! j) = ''Computer wins!''"
    from ne have "i \<noteq> j" by auto
    from determineWinner_index [OF d n i j this] w
    show "(int j - (int i + 1)) mod int (length ms) < int h"
      by (simp add: algebra_simps split: if_splits)
  next
    fix j assume j: "j < length ms" and w: "(int j - (int i + 1)) mod int (length ms) < int h"
    from w self have ne: "i \<noteq> j" by auto
    then have "ms ! j \<noteq> ms ! i"
      using d i j by (simp add: nth_eq_iff_index_eq)
    moreover from determineWinner_index [OF d n i j ne] w
    have "determineWinner ms (ms ! i) (ms ! j) = ''Computer wins!''"
      by (simp add: algebra_simps)
    ultimately show "ms ! j \<noteq> ms ! i \<and> determineWinner ms (ms ! i) (ms ! j) = ''Computer wins!''"
      by simp
  qed
  moreover have "card {j. j < length ms \<and> (int j - (int i + 1)) mod int (length ms) < int h} = h"
    using n by (intro card_window) simp_all
  ultimately show ?thesis
    by (simp add: length_filter_conv_card)
qed

lemma count_others:
  assumes d: "distinct ms" and a: "a \<in> set ms"
  shows "length (filter (\<lambda>x. x \<noteq> a) ms) = length ms - 1"
proof -
  have "length (filter (\<lambda>x. x \<noteq> a) ms) + length (filter (\<lambda>x. \<not> x \<noteq> a) ms) = length ms"
    by (rule sum_length_filter_compl)
  moreover have "length (filter (\<lambda>x. \<not> x \<noteq> a) ms) = 1"
    using d a by (simp add: distinct_length_filter)
  ultimately show ?thesis by simp
qed

lemma count_you_win:
  assumes d: "distinct ms" and n: "length ms = 2 * h + 1" and i: "i < length ms"
  shows "length (filter (\<lambda>x. x \<noteq> ms ! i \<and> determineWinner ms (ms ! i) x = ''You win!'') ms) = h"
proof -
  let ?a = "ms ! i"
  let ?others = "filter (\<lambda>x. x \<noteq> ?a) ms"
  have split: "length (filter (\<lambda>x. determineWinner ms ?a x = ''Computer wins!'') ?others)
             + length (filter (\<lambda>x. \<not> determineWinner ms ?a x = ''Computer wins!'') ?others)
             = length ?others"
    by (rule sum_length_filter_compl)
  have others: "length ?others = 2 * h"
    using count_others [OF d nth_mem [OF i]] n by simp
  have cw: "length (filter (\<lambda>x. determineWinner ms ?a x = ''Computer wins!'') ?others) = h"
    using count_computer_wins [OF d n i] by (simp add: conj_commute)
  have "filter (\<lambda>x. \<not> determineWinner ms ?a x = ''Computer wins!'') ?others
        = filter (\<lambda>x. determineWinner ms ?a x = ''You win!'') ?others"
  proof (rule filter_cong [OF refl])
    fix x assume "x \<in> set ?others"
    then have "x \<in> set ms" and ne: "x \<noteq> ?a" by simp_all
    then obtain j where j: "j < length ms" and x: "x = ms ! j"
      by (auto simp: in_set_conv_nth)
    from ne x have "i \<noteq> j" by auto
    from determineWinner_index [OF d n i j this]
    show "(\<not> determineWinner ms ?a x = ''Computer wins!'') = (determineWinner ms ?a x = ''You win!'')"
      by (simp add: x)
  qed
  with split others cw
  have "length (filter (\<lambda>x. determineWinner ms ?a x = ''You win!'') ?others) = h"
    by simp
  then show ?thesis by (simp add: conj_commute)
qed

subsection \<open>The help table's comparison for an odd number of moves\<close>

lemma js_rem_num_of_int:
  assumes a: "0 \<le> a" and n: "0 < n"
  shows "js_rem_num (of_int a) (of_int n) = Some (of_int (a mod n))"
proof -
  have q: "(0 :: rat) \<le> of_int a / of_int n"
    using a n by simp
  have "truncq (of_int a / of_int n) = a div n"
    using q by (simp add: truncq_def floor_divide_of_int_eq)
  moreover have "(of_int a :: rat) - of_int n * of_int (a div n) = of_int (a - n * (a div n))"
    by simp
  moreover have "a - n * (a div n) = a mod n"
    by (simp add: minus_mult_div_eq_mod)
  ultimately show ?thesis
    using n by (simp add: js_rem_num_def)
qed

lemma wrap_branch_agrees:
  fixes ix mi :: int
  assumes n: "0 < n"
  shows "((of_int ix + of_nat h \<ge> (of_nat n :: rat)) \<and>
          js_le_num (of_int mi) (js_rem_num (of_int ix + of_nat h) (of_nat n)))
       = ((ix + int h \<ge> int n) \<and> js_le mi (js_rem (ix + int h) (int n)))"
proof -
  have sum: "(of_int ix + of_nat h :: rat) = of_int (ix + int h)" by simp
  have len: "(of_nat n :: rat) = of_int (int n)" by simp
  have left: "((of_int (ix + int h) :: rat) \<ge> of_int (int n)) = (ix + int h \<ge> int n)"
    by (simp only: of_int_le_iff)
  have right: "js_le_num (of_int mi) (js_rem_num (of_int (ix + int h)) (of_int (int n)))
             = js_le mi (js_rem (ix + int h) (int n))" if "ix + int h \<ge> int n"
  proof -
    from that n have nn: "0 \<le> ix + int h" and np: "0 < int n" by simp_all
    show ?thesis
      unfolding js_rem_num_of_int [OF nn np] js_rem_nonneg [OF nn np]
      by (simp add: js_le_num_def js_le_def)
  qed
  show ?thesis
    unfolding sum len left using right by blast
qed

lemma determineResult_odd:
  assumes n: "length ms = 2 * h + 1"
  shows "determineResult ms a b =
           (if determineWinner ms a b = ''Draw'' then ''Draw''
            else if determineWinner ms a b = ''Computer wins!'' then ''Lose'' else ''Win'')"
proof -
  let ?ix = "indexOf ms a" and ?mi = "indexOf ms b"
  have half: "(of_nat (length ms) - 1) / (2 :: rat) = of_nat h"
    using n by simp
  have halfi: "(int (length ms) - 1) div 2 = int h"
    using n by simp
  have first: "((of_int ?mi :: rat) \<ge> of_int ?ix + 1 \<and> (of_int ?mi :: rat) \<le> of_int ?ix + of_nat h)
             = (?mi \<ge> ?ix + 1 \<and> ?mi \<le> ?ix + int h)"
  proof -
    have "(of_int ?ix + 1 :: rat) = of_int (?ix + 1)" by simp
    moreover have "(of_int ?ix + of_nat h :: rat) = of_int (?ix + int h)" by simp
    ultimately show ?thesis by (simp only: of_int_le_iff)
  qed
  have second: "((of_int ?ix + of_nat h \<ge> (of_nat (length ms) :: rat)) \<and>
          js_le_num (of_int ?mi) (js_rem_num (of_int ?ix + of_nat h) (of_nat (length ms))))
       = ((?ix + int h \<ge> int (length ms)) \<and> js_le ?mi (js_rem (?ix + int h) (int (length ms))))"
    using n by (intro wrap_branch_agrees) simp
  show ?thesis
    unfolding determineResult_def determineWinner_def Let_def half halfi first second
    by simp
qed

lemma generateHelpTable_entry:
  assumes "i < length ms" and "j < length ms"
  shows "generateHelpTable this_moves ms ! Suc i ! Suc j = determineResult this_moves (ms ! i) (ms ! j)"
  using assms by (simp add: generateHelpTable_def)

lemma generateHelpTable_shape:
  "length (generateHelpTable this_moves ms) = Suc (length ms)"
  "generateHelpTable this_moves ms ! 0 = ''PC Moves'' # ms"
  "i < length ms \<Longrightarrow> length (generateHelpTable this_moves ms ! Suc i) = Suc (length ms)"
  "i < length ms \<Longrightarrow> generateHelpTable this_moves ms ! Suc i ! 0 = ms ! i"
  by (simp_all add: generateHelpTable_def)

lemma determineResult_matches:
  assumes "odd (length ms)"
  shows "(determineResult ms a b = ''Win'') = (determineWinner ms a b = ''You win!'')
       \<and> (determineResult ms a b = ''Lose'') = (determineWinner ms a b = ''Computer wins!'')
       \<and> (determineResult ms a b = ''Draw'') = (determineWinner ms a b = ''Draw'')"
proof -
  from assms obtain h where n: "length ms = 2 * h + 1"
    by (rule odd_length_half)
  show ?thesis
    unfolding determineResult_odd [OF n]
    using determineWinner_range [of ms a b] by auto
qed


section \<open>Evaluating the game\<close>

lemmas game_defs =
  main_def new_Game_def play_def showMenu_def generateHmac_def HmacGenerator_generateHmac_def
  isMoveValid_def array_get_def js_str_def

lemma show_nat_digits:
  "show_nat (Suc 0) = ''1''" "show_nat (Suc (Suc 0)) = ''2''" "show_nat (Suc (Suc (Suc 0))) = ''3''"
  by (simp_all add: show_nat.simps dec_digit_def)


lemma duplicates_iff: "(card (set ms) \<noteq> length ms) = (\<not> distinct ms)"
  using card_distinct [of ms] distinct_card [of ms] by blast

lemma parity_test_iff: "(length ms mod 2 \<noteq> 1) = even (length ms)"
  by presburger


section \<open>The claims\<close>

subsection \<open>C1: replaying a round\<close>

text \<open>
  C1. The claim: the digest shown by \<open>showMenu\<close> before the player's move equals the keyed
  hash of the key and the computer move disclosed when the round resolves. The run
  below starts the classic game with first draw 0, so the menu shows the digest of
  \<open>rock\<close>; the player answers \<open>rock\<close> and the draw inside \<open>play\<close> is 1. The call discloses
  the move \<open>paper\<close> with the unchanged key, and prints the digest of \<open>paper\<close>: the
  disclosed values reproduce the digest shown before only if the hash maps \<open>rock\<close> and
  \<open>paper\<close> to the same digest under that key.
\<close>

theorem play_discloses_redrawn_move:
  "new_Game rps sample_bytes 0 = game0
   \<and> showMenu H game0 = Inr ((''HMAC: '' @ H (generateKey sample_bytes) ''rock'') # menu_rest)
   \<and> play H game0 1 (Some ''rock'')
     = Inr (game0\<lparr>computerMove := Some ''paper''\<rparr>,
            [''HMAC: '' @ H (generateKey sample_bytes) ''paper'',
             ''Your move: rock'',
             ''Computer move: paper'',
             ''Computer wins!'',
             ''HMAC key: '' @ generateKey sample_bytes @ [CHR 0x0A],
             ''HMAC: '' @ H (generateKey sample_bytes) ''paper''] @ menu_rest)"
  by (simp add: game_defs show_nat_digits comparator_defs)

subsection \<open>C2: the window that follows the first argument\<close>

text \<open>
  C2, as stated, fails. The claim: for distinct positions \<open>i\<close> and \<open>j\<close> of a valid move
  set, \<open>determineWinner\<close> returns \<open>You win!\<close> for the moves at \<open>i\<close> and \<open>j\<close> exactly when
  \<open>(j - i - 1) mod n < floor ((n - 1) / 2)\<close>. In the classic move set with \<open>i = 0\<close> (rock)
  and \<open>j = 1\<close> (paper) the right-hand side holds and the result is \<open>Computer wins!\<close>.
\<close>

theorem following_window_counterexample:
  "\<not> ((determineWinner rps (rps ! 0) (rps ! 1) = ''You win!'')
       = ((int 1 - int 0 - 1) mod int (length rps) < (int (length rps) - 1) div 2))"
  by (simp add: comparator_defs)

text \<open>
  C2, amended. For distinct positions \<open>i\<close> and \<open>j\<close> of a move set of distinct moves with odd
  length \<open>n \<ge> 3\<close>, \<open>determineWinner\<close> returns \<open>Computer wins!\<close> for the moves at \<open>i\<close> and \<open>j\<close>
  exactly when \<open>(j - i - 1) mod n < floor ((n - 1) / 2)\<close>, and \<open>You win!\<close> exactly when
  that fails: the window of positions following the first argument holds the moves that
  beat it.
\<close>

theorem determineWinner_following_window:
  assumes "distinct ms" and "odd (length ms)" and "3 \<le> length ms"
    and "i < length ms" and "j < length ms" and "i \<noteq> j"
  shows "(determineWinner ms (ms ! i) (ms ! j) = ''Computer wins!'')
           = ((int j - int i - 1) mod int (length ms) < (int (length ms) - 1) div 2)
       \<and> (determineWinner ms (ms ! i) (ms ! j) = ''You win!'')
           = (\<not> (int j - int i - 1) mod int (length ms) < (int (length ms) - 1) div 2)"
proof -
  from assms(2) obtain h where n: "length ms = 2 * h + 1"
    and half: "(int (length ms) - 1) div 2 = int h"
    by (rule odd_length_half)
  show ?thesis
    unfolding half determineWinner_index [OF assms(1) n assms(4,5,6)] by simp
qed

theorem determineWinner_following_window_witness:
  "distinct rps \<and> odd (length rps) \<and> 3 \<le> length rps \<and> (0::nat) < length rps \<and> (1::nat) < length rps
   \<and> (0::nat) \<noteq> 1
   \<and> (determineWinner rps (rps ! 0) (rps ! 1) = ''Computer wins!'')
       = ((int 1 - int 0 - 1) mod int (length rps) < (int (length rps) - 1) div 2)
   \<and> (determineWinner rps (rps ! 0) (rps ! 1) = ''You win!'')
       = (\<not> (int 1 - int 0 - 1) mod int (length rps) < (int (length rps) - 1) div 2)"
proof -
  have h: "distinct rps" "odd (length rps)" "3 \<le> length rps" "(0::nat) < length rps"
    "(1::nat) < length rps" "(0::nat) \<noteq> 1"
    by simp_all
  from determineWinner_following_window [OF h] h show ?thesis by simp
qed

subsection \<open>C3: the concrete scenarios\<close>

text \<open>
  C3. With the move set rock, paper, scissors: rock against scissors is a win for the
  first argument, scissors against rock a loss, rock against paper a loss, rock against
  rock a draw. With rock, spock, paper, lizard, scissors: rock against scissors is a win,
  rock against spock a loss, spock against rock a win.
\<close>

theorem determineWinner_scenarios:
  "determineWinner rps ''rock'' ''scissors'' = ''You win!''
   \<and> determineWinner rps ''scissors'' ''rock'' = ''Computer wins!''
   \<and> determineWinner rps ''rock'' ''paper'' = ''Computer wins!''
   \<and> determineWinner rps ''rock'' ''rock'' = ''Draw''
   \<and> determineWinner rpsls ''rock'' ''scissors'' = ''You win!''
   \<and> determineWinner rpsls ''rock'' ''spock'' = ''Computer wins!''
   \<and> determineWinner rpsls ''spock'' ''rock'' = ''You win!''"
  by (simp add: comparator_defs)

subsection \<open>C4: an invalid submission\<close>

text \<open>
  C4. The claim: a submission that is not a member of the move set is rejected and
  leaves the computer's move, the key and the digest as they were. In the game started
  with first draw 0 the menu shows the digest of \<open>rock\<close>. \<open>play\<close> called with \<open>undefined\<close>
  or with a string outside the move set, its draw being 1, prints the rejection and a
  menu with the digest of \<open>paper\<close>, and leaves \<open>paper\<close> as the computer's move: the game
  after the call is not the game before it.
\<close>

theorem play_invalid_redraws_move:
  "showMenu H game0 = Inr ((''HMAC: '' @ H (generateKey sample_bytes) ''rock'') # menu_rest)
   \<and> play H game0 1 None
     = Inr (game0\<lparr>computerMove := Some ''paper''\<rparr>,
            [''Invalid move. Please try again.'' @ [CHR 0x0A],
             ''HMAC: '' @ H (generateKey sample_bytes) ''paper''] @ menu_rest)
   \<and> play H game0 1 (Some ''banana'')
     = Inr (game0\<lparr>computerMove := Some ''paper''\<rparr>,
            [''Invalid move. Please try again.'' @ [CHR 0x0A],
             ''HMAC: '' @ H (generateKey sample_bytes) ''paper''] @ menu_rest)
   \<and> game0\<lparr>computerMove := Some ''paper''\<rparr> \<noteq> game0"
  by (simp add: game_defs show_nat_digits)

subsection \<open>C5: the key across rounds\<close>

text \<open>
  C5, as stated, fails. The claim: each new round has a fresh key. In the run below the
  game is constructed, a round is played and resolved, and the menu of the next round
  is printed: the key of the game after the call is the key disclosed by the call, and
  the digest of the next round is computed with it.
\<close>

theorem key_reused_counterexample:
  "new_Game rps sample_bytes 0 = game0
   \<and> play hmac_stub game0 1 (Some ''rock'')
     = Inr (game0\<lparr>computerMove := Some ''paper''\<rparr>,
            [''HMAC: '' @ hmac_stub (generateKey sample_bytes) ''paper'',
             ''Your move: rock'',
             ''Computer move: paper'',
             ''Computer wins!'',
             ''HMAC key: '' @ generateKey sample_bytes @ [CHR 0x0A],
             ''HMAC: '' @ hmac_stub (generateKey sample_bytes) ''paper''] @ menu_rest)
   \<and> \<not> hmacKey (game0\<lparr>computerMove := Some ''paper''\<rparr>) \<noteq> hmacKey game0"
  by (simp add: game_defs show_nat_digits comparator_defs)

text \<open>
  C5, amended. The key is made once, by the constructor, and \<open>play\<close> never replaces it.
  Whenever \<open>play\<close> returns, the game it leaves has the key it had before; the menu that
  ends the printed lines shows, as the commitment of the next round, the digest of that
  game's computer move under this same key; and when the submitted move is valid, the
  five lines printed before that menu end with the line that discloses this key. The
  commitment of the next round is keyed with a key already disclosed.
\<close>

theorem play_keeps_key:
  assumes "play H g r userMove = Inr (g', out)"
  shows "hmacKey g' = hmacKey g
       \<and> (\<exists>c shown menu_tail.
            computerMove g' = Some c
          \<and> showMenu H g' = Inr ((''HMAC: '' @ H (hmacKey g) c) # menu_tail)
          \<and> out = shown @ (''HMAC: '' @ H (hmacKey g) c) # menu_tail
          \<and> (isMoveValid g userMove \<longrightarrow>
               length shown = 5 \<and> last shown = ''HMAC key: '' @ hmacKey g @ [CHR 0x0A]))"
proof -
  let ?g1 = "g\<lparr>computerMove := array_get (moves g) r\<rparr>"
  from assms obtain hmac where hm: "generateHmac H ?g1 (computerMove ?g1) = Inr hmac"
    by (auto simp: play_def Let_def split: sum.splits)
  then obtain c where c: "computerMove ?g1 = Some c" and hmac: "hmac = H (hmacKey g) c"
    by (auto simp: generateHmac_def HmacGenerator_generateHmac_def split: option.splits)
  define menu_tail where "menu_tail = ''Available moves:''
      # map (\<lambda>(index, move). show_nat (index + 1) @ '' - '' @ move) (enumerate 0 (moves g))
      @ [''0 - exit'', ''? - help'']"
  have menu: "showMenu H ?g1 = Inr ((''HMAC: '' @ H (hmacKey g) c) # menu_tail)"
    using hm hmac by (simp add: showMenu_def menu_tail_def)
  have valid: "isMoveValid ?g1 userMove = isMoveValid g userMove"
    by (simp add: isMoveValid_def)
  have key: "hmacKey ?g1 = hmacKey g" by simp
  show ?thesis
  proof (cases "isMoveValid g userMove")
    case True
    define shown where "shown = [''HMAC: '' @ hmac,
                        ''Your move: '' @ js_str userMove,
                        ''Computer move: '' @ js_str (computerMove ?g1),
                        determineWinner (map Some (moves ?g1)) userMove (computerMove ?g1),
                        ''HMAC key: '' @ hmacKey g @ [CHR 0x0A]]"
    have "play H g r userMove = Inr (?g1, shown @ (''HMAC: '' @ H (hmacKey g) c) # menu_tail)"
      using hm menu valid True by (simp add: play_def Let_def shown_def)
    with assms have "Inr (g', out)
        = (Inr (?g1, shown @ (''HMAC: '' @ H (hmacKey g) c) # menu_tail) :: error + game \<times> string list)"
      by (simp only:)
    then have g': "g' = ?g1" and out: "out = shown @ (''HMAC: '' @ H (hmacKey g) c) # menu_tail"
      by (simp_all only: sum.inject prod.inject)
    have "length shown = 5" and "last shown = ''HMAC key: '' @ hmacKey g @ [CHR 0x0A]"
      by (simp_all add: shown_def)
    with key show ?thesis
      unfolding g' using c menu out by blast
  next
    case False
    define shown where "shown = [''Invalid move. Please try again.'' @ [CHR 0x0A]]"
    have "play H g r userMove = Inr (?g1, shown @ (''HMAC: '' @ H (hmacKey g) c) # menu_tail)"
      using hm menu valid False by (simp add: play_def Let_def shown_def)
    with assms have "Inr (g', out)
        = (Inr (?g1, shown @ (''HMAC: '' @ H (hmacKey g) c) # menu_tail) :: error + game \<times> string list)"
      by (simp only:)
    then have g': "g' = ?g1" and out: "out = shown @ (''HMAC: '' @ H (hmacKey g) c) # menu_tail"
      by (simp_all only: sum.inject prod.inject)
    from key show ?thesis
      unfolding g' using c menu out False by blast
  qed
qed

theorem play_keeps_key_witness:
  "play hmac_stub game0 2 (Some ''scissors'')
     = Inr (game0\<lparr>computerMove := Some ''scissors''\<rparr>,
            [''HMAC: '' @ hmac_stub (generateKey sample_bytes) ''scissors'',
             ''Your move: scissors'',
             ''Computer move: scissors'',
             ''Draw'',
             ''HMAC key: '' @ generateKey sample_bytes @ [CHR 0x0A],
             ''HMAC: '' @ hmac_stub (generateKey sample_bytes) ''scissors''] @ menu_rest)
   \<and> isMoveValid game0 (Some ''scissors'')
   \<and> hmacKey (game0\<lparr>computerMove := Some ''scissors''\<rparr>) = hmacKey game0
   \<and> (\<exists>c shown menu_tail.
        computerMove (game0\<lparr>computerMove := Some ''scissors''\<rparr>) = Some c
      \<and> showMenu hmac_stub (game0\<lparr>computerMove := Some ''scissors''\<rparr>)
          = Inr ((''HMAC: '' @ hmac_stub (hmacKey game0) c) # menu_tail)
      \<and> [''HMAC: '' @ hmac_stub (generateKey sample_bytes) ''scissors'',
          ''Your move: scissors'',
          ''Computer move: scissors'',
          ''Draw'',
          ''HMAC key: '' @ generateKey sample_bytes @ [CHR 0x0A],
          ''HMAC: '' @ hmac_stub (generateKey sample_bytes) ''scissors''] @ menu_rest
          = shown @ (''HMAC: '' @ hmac_stub (hmacKey game0) c) # menu_tail
      \<and> length shown = 5
      \<and> last shown = ''HMAC key: '' @ hmacKey game0 @ [CHR 0x0A])"
proof -
  have run: "play hmac_stub game0 2 (Some ''scissors'')
     = Inr (game0\<lparr>computerMove := Some ''scissors''\<rparr>,
            [''HMAC: '' @ hmac_stub (generateKey sample_bytes) ''scissors'',
             ''Your move: scissors'',
             ''Computer move: scissors'',
             ''Draw'',
             ''HMAC key: '' @ generateKey sample_bytes @ [CHR 0x0A],
             ''HMAC: '' @ hmac_stub (generateKey sample_bytes) ''scissors''] @ menu_rest)"
    by (simp add: game_defs show_nat_digits comparator_defs)
  have valid: "isMoveValid game0 (Some ''scissors'')"
    by (simp add: isMoveValid_def)
  from play_keeps_key [OF run] valid run show ?thesis by blast
qed

subsection \<open>C6: antisymmetry\<close>

text \<open>
  C6. For a move set of distinct moves with odd length \<open>n \<ge> 3\<close> and two different member
  moves \<open>a\<close> and \<open>b\<close>: \<open>a\<close> against \<open>b\<close> is \<open>You win!\<close> exactly when \<open>b\<close> against \<open>a\<close> is
  \<open>Computer wins!\<close>; exactly one of the two ordered comparisons is \<open>You win!\<close>; and the two
  are never both \<open>Computer wins!\<close>.
\<close>

theorem determineWinner_antisymmetric:
  assumes "distinct ms" and "odd (length ms)" and "3 \<le> length ms"
    and "a \<in> set ms" and "b \<in> set ms" and "a \<noteq> b"
  shows "(determineWinner ms a b = ''You win!'') = (determineWinner ms b a = ''Computer wins!'')
       \<and> (determineWinner ms a b = ''You win!'') \<noteq> (determineWinner ms b a = ''You win!'')
       \<and> \<not> (determineWinner ms a b = ''Computer wins!'' \<and> determineWinner ms b a = ''Computer wins!'')"
proof -
  from assms(2) obtain h where n: "length ms = 2 * h + 1"
    by (rule odd_length_half)
  from assms(4) obtain i where i: "i < length ms" and a: "a = ms ! i"
    by (auto simp: in_set_conv_nth)
  from assms(5) obtain j where j: "j < length ms" and b: "b = ms ! j"
    by (auto simp: in_set_conv_nth)
  from assms(6) a b have ne: "i \<noteq> j" and ne': "j \<noteq> i" by auto
  have flip: "((int j - int i - 1) mod int (length ms) < int h)
        = (\<not> (int i - int j - 1) mod int (length ms) < int h)"
    using n i j ne by (intro window_flip) simp_all
  show ?thesis
    unfolding a b determineWinner_index [OF assms(1) n i j ne]
      determineWinner_index [OF assms(1) n j i ne']
    using flip by simp
qed

theorem determineWinner_antisymmetric_witness:
  "distinct rps \<and> odd (length rps) \<and> 3 \<le> length rps \<and> ''rock'' \<in> set rps \<and> ''paper'' \<in> set rps
   \<and> ''rock'' \<noteq> ''paper''
   \<and> (determineWinner rps ''rock'' ''paper'' = ''You win!'')
       = (determineWinner rps ''paper'' ''rock'' = ''Computer wins!'')
   \<and> (determineWinner rps ''rock'' ''paper'' = ''You win!'')
       \<noteq> (determineWinner rps ''paper'' ''rock'' = ''You win!'')
   \<and> \<not> (determineWinner rps ''rock'' ''paper'' = ''Computer wins!''
         \<and> determineWinner rps ''paper'' ''rock'' = ''Computer wins!'')"
proof -
  have h: "distinct rps" "odd (length rps)" "3 \<le> length rps" "''rock'' \<in> set rps"
    "''paper'' \<in> set rps" "''rock'' \<noteq> ''paper''"
    by simp_all
  from determineWinner_antisymmetric [OF h] h show ?thesis by blast
qed

subsection \<open>C7: balance\<close>

text \<open>
  C7. For a move set of distinct moves with odd length \<open>n \<ge> 3\<close> and a member move \<open>a\<close>,
  exactly \<open>(n - 1) / 2\<close> of the other moves \<open>x\<close> give \<open>You win!\<close> for \<open>a\<close> against \<open>x\<close>, and
  exactly \<open>(n - 1) / 2\<close> give \<open>Computer wins!\<close>.
\<close>

theorem determineWinner_balanced:
  assumes "distinct ms" and "odd (length ms)" and "3 \<le> length ms" and "a \<in> set ms"
  shows "length (filter (\<lambda>x. x \<noteq> a \<and> determineWinner ms a x = ''You win!'') ms)
           = (length ms - 1) div 2
       \<and> length (filter (\<lambda>x. x \<noteq> a \<and> determineWinner ms a x = ''Computer wins!'') ms)
           = (length ms - 1) div 2"
proof -
  from assms(2) obtain h where n: "length ms = 2 * h + 1" and half: "(length ms - 1) div 2 = h"
    by (rule odd_length_half)
  from assms(4) obtain i where i: "i < length ms" and a: "a = ms ! i"
    by (auto simp: in_set_conv_nth)
  show ?thesis
    unfolding half a
    using count_you_win [OF assms(1) n i] count_computer_wins [OF assms(1) n i] by simp
qed

theorem determineWinner_balanced_witness:
  "distinct rpsls \<and> odd (length rpsls) \<and> 3 \<le> length rpsls \<and> ''paper'' \<in> set rpsls
   \<and> length (filter (\<lambda>x. x \<noteq> ''paper'' \<and> determineWinner rpsls ''paper'' x = ''You win!'') rpsls)
       = (length rpsls - 1) div 2
   \<and> length (filter (\<lambda>x. x \<noteq> ''paper'' \<and> determineWinner rpsls ''paper'' x = ''Computer wins!'') rpsls)
       = (length rpsls - 1) div 2"
proof -
  have h: "distinct rpsls" "odd (length rpsls)" "3 \<le> length rpsls" "''paper'' \<in> set rpsls"
    by simp_all
  from determineWinner_balanced [OF h] h show ?thesis by simp
qed

subsection \<open>C8: validation of the command line\<close>

text \<open>
  C8. For every list of moves on the command line that is shorter than 3, of even
  length or with a duplicate, the program prints the refusal and constructs no game;
  for every list of distinct moves of odd length at least 3 it constructs the game from
  that list and shows its menu. (The index drawn by the constructor is below the
  number of moves.)
\<close>

theorem main_validates_moves:
  "(length ms < 3 \<or> even (length ms) \<or> \<not> distinct ms \<longrightarrow>
      main H (node # script # ms) randomBytes r
        = Inr (Rejected [''Invalid moves. Please provide an odd number of unique moves.'',
                         ''Example: node game.js rock paper scissors'']))
   \<and> (distinct ms \<and> odd (length ms) \<and> 3 \<le> length ms \<and> r < length ms \<longrightarrow>
      main H (node # script # ms) randomBytes r
        = Inr (Started (new_Game ms randomBytes r)
                 ([''HMAC: '' @ H (generateKey randomBytes) (ms ! r), ''Available moves:'']
                  @ map (\<lambda>(index, move). show_nat (index + 1) @ '' - '' @ move) (enumerate 0 ms)
                  @ [''0 - exit'', ''? - help''])))"
proof (intro conjI impI)
  assume "length ms < 3 \<or> even (length ms) \<or> \<not> distinct ms"
  then have "length ms < 3 \<or> length ms mod 2 \<noteq> 1 \<or> card (set ms) \<noteq> length ms"
    by (simp only: duplicates_iff parity_test_iff)
  then show "main H (node # script # ms) randomBytes r
        = Inr (Rejected [''Invalid moves. Please provide an odd number of unique moves.'',
                         ''Example: node game.js rock paper scissors''])"
    by (simp add: main_def)
next
  assume ok: "distinct ms \<and> odd (length ms) \<and> 3 \<le> length ms \<and> r < length ms"
  then have "\<not> (length ms < 3 \<or> length ms mod 2 \<noteq> 1 \<or> card (set ms) \<noteq> length ms)"
    by (simp only: duplicates_iff parity_test_iff) simp
  moreover have "showMenu H (new_Game ms randomBytes r)
      = Inr ([''HMAC: '' @ H (generateKey randomBytes) (ms ! r), ''Available moves:'']
                  @ map (\<lambda>(index, move). show_nat (index + 1) @ '' - '' @ move) (enumerate 0 ms)
                  @ [''0 - exit'', ''? - help''])"
    using ok by (simp add: showMenu_def new_Game_def generateHmac_def
        HmacGenerator_generateHmac_def array_get_def)
  ultimately show "main H (node # script # ms) randomBytes r
        = Inr (Started (new_Game ms randomBytes r)
                 ([''HMAC: '' @ H (generateKey randomBytes) (ms ! r), ''Available moves:'']
                  @ map (\<lambda>(index, move). show_nat (index + 1) @ '' - '' @ move) (enumerate 0 ms)
                  @ [''0 - exit'', ''? - help'']))"
    by (simp add: main_def Let_def)
qed

theorem main_validates_moves_witness:
  "(length [''rock'', ''paper''] < 3 \<or> even (length [''rock'', ''paper''])
      \<or> \<not> distinct [''rock'', ''paper''])
   \<and> main hmac_stub [''node'', ''game.js'', ''rock'', ''paper''] sample_bytes 0
       = Inr (Rejected [''Invalid moves. Please provide an odd number of unique moves.'',
                        ''Example: node game.js rock paper scissors''])
   \<and> (length [''rock''] < 3 \<or> even (length [''rock'']) \<or> \<not> distinct [''rock''])
   \<and> main hmac_stub [''node'', ''game.js'', ''rock''] sample_bytes 0
       = Inr (Rejected [''Invalid moves. Please provide an odd number of unique moves.'',
                        ''Example: node game.js rock paper scissors''])
   \<and> (length [''rock'', ''paper'', ''rock''] < 3 \<or> even (length [''rock'', ''paper'', ''rock''])
      \<or> \<not> distinct [''rock'', ''paper'', ''rock''])
   \<and> main hmac_stub [''node'', ''game.js'', ''rock'', ''paper'', ''rock''] sample_bytes 0
       = Inr (Rejected [''Invalid moves. Please provide an odd number of unique moves.'',
                        ''Example: node game.js rock paper scissors''])
   \<and> (distinct rps \<and> odd (length rps) \<and> 3 \<le> length rps \<and> (2::nat) < length rps)
   \<and> main hmac_stub (''node'' # ''game.js'' # rps) sample_bytes 2
       = Inr (Started (new_Game rps sample_bytes 2)
                ((''HMAC: '' @ hmac_stub (generateKey sample_bytes) ''scissors'') # menu_rest))"
proof -
  have even_len: "length [''rock'', ''paper''] < 3 \<or> even (length [''rock'', ''paper''])
      \<or> \<not> distinct [''rock'', ''paper'']"
    by simp
  have single: "length [''rock''] < 3 \<or> even (length [''rock'']) \<or> \<not> distinct [''rock'']"
    by simp
  have dup: "length [''rock'', ''paper'', ''rock''] < 3 \<or> even (length [''rock'', ''paper'', ''rock''])
      \<or> \<not> distinct [''rock'', ''paper'', ''rock'']"
    by simp
  have ok: "distinct rps \<and> odd (length rps) \<and> 3 \<le> length rps \<and> (2::nat) < length rps"
    by simp
  note inst = main_validates_moves [where H = hmac_stub and node = "''node''"
      and script = "''game.js''" and randomBytes = sample_bytes]
  have r1: "main hmac_stub [''node'', ''game.js'', ''rock'', ''paper''] sample_bytes 0
       = Inr (Rejected [''Invalid moves. Please provide an odd number of unique moves.'',
                        ''Example: node game.js rock paper scissors''])"
    using inst [where ms = "[''rock'', ''paper'']" and r = 0] even_len by blast
  have r2: "main hmac_stub [''node'', ''game.js'', ''rock''] sample_bytes 0
       = Inr (Rejected [''Invalid moves. Please provide an odd number of unique moves.'',
                        ''Example: node game.js rock paper scissors''])"
    using inst [where ms = "[''rock'']" and r = 0] single by blast
  have r3: "main hmac_stub [''node'', ''game.js'', ''rock'', ''paper'', ''rock''] sample_bytes 0
       = Inr (Rejected [''Invalid moves. Please provide an odd number of unique moves.'',
                        ''Example: node game.js rock paper scissors''])"
    using inst [where ms = "[''rock'', ''paper'', ''rock'']" and r = 0] dup by blast
  have r4: "main hmac_stub (''node'' # ''game.js'' # rps) sample_bytes 2
       = Inr (Started (new_Game rps sample_bytes 2)
                ((''HMAC: '' @ hmac_stub (generateKey sample_bytes) ''scissors'') # menu_rest))"
    using inst [where ms = rps and r = 2] ok by (simp add: show_nat_digits)
  from even_len single dup ok r1 r2 r3 r4 show ?thesis by blast
qed

subsection \<open>C9: the help table and the comparator\<close>

text \<open>
  C9. For a move set of distinct moves with odd length \<open>n \<ge> 3\<close> and member moves \<open>a\<close> at
  position \<open>i\<close> and \<open>b\<close> at position \<open>j\<close>: the help table built from the move set has
  \<open>n + 1\<close> rows, the row of \<open>a\<close> has \<open>n + 1\<close> cells and starts with \<open>a\<close>, the header names
  \<open>b\<close> above column \<open>j + 1\<close>, and the entry of that row in that column is
  \<open>determineResult\<close> of \<open>a\<close> and \<open>b\<close>. The entry, and \<open>determineResult\<close>, are \<open>Win\<close>, \<open>Lose\<close>,
  \<open>Draw\<close> exactly when \<open>determineWinner\<close> of \<open>a\<close> and \<open>b\<close> returns \<open>You win!\<close>,
  \<open>Computer wins!\<close>, \<open>Draw\<close>.
\<close>

theorem generateHelpTable_agrees:
  assumes "distinct ms" and "odd (length ms)" and "3 \<le> length ms"
    and "i < length ms" and "j < length ms" and "ms ! i = a" and "ms ! j = b"
  shows "length (generateHelpTable ms ms) = Suc (length ms)
       \<and> length (generateHelpTable ms ms ! Suc i) = Suc (length ms)
       \<and> generateHelpTable ms ms ! 0 ! Suc j = b
       \<and> generateHelpTable ms ms ! Suc i ! 0 = a
       \<and> generateHelpTable ms ms ! Suc i ! Suc j = determineResult ms a b
       \<and> (generateHelpTable ms ms ! Suc i ! Suc j = ''Win'') = (determineWinner ms a b = ''You win!'')
       \<and> (generateHelpTable ms ms ! Suc i ! Suc j = ''Lose'') = (determineWinner ms a b = ''Computer wins!'')
       \<and> (generateHelpTable ms ms ! Suc i ! Suc j = ''Draw'') = (determineWinner ms a b = ''Draw'')
       \<and> (determineResult ms a b = ''Win'') = (determineWinner ms a b = ''You win!'')
       \<and> (determineResult ms a b = ''Lose'') = (determineWinner ms a b = ''Computer wins!'')
       \<and> (determineResult ms a b = ''Draw'') = (determineWinner ms a b = ''Draw'')"
proof -
  have entry: "generateHelpTable ms ms ! Suc i ! Suc j = determineResult ms a b"
    using generateHelpTable_entry [OF assms(4,5), of ms] assms(6,7) by simp
  have header: "generateHelpTable ms ms ! 0 ! Suc j = b"
    using assms(7) by (simp add: generateHelpTable_shape)
  have label: "generateHelpTable ms ms ! Suc i ! 0 = a"
    using assms(4,6) by (simp add: generateHelpTable_shape)
  have rows: "length (generateHelpTable ms ms) = Suc (length ms)"
    and cols: "length (generateHelpTable ms ms ! Suc i) = Suc (length ms)"
    using assms(4) by (simp_all add: generateHelpTable_shape)
  note live = determineResult_matches [OF assms(2), of a b]
  show ?thesis
    unfolding entry using rows cols header label live unfolding entry by blast
qed

theorem generateHelpTable_agrees_witness:
  "distinct rps \<and> odd (length rps) \<and> 3 \<le> length rps \<and> (2::nat) < length rps \<and> (0::nat) < length rps
   \<and> rps ! 2 = ''scissors'' \<and> rps ! 0 = ''rock''
   \<and> length (generateHelpTable rps rps) = Suc (length rps)
   \<and> length (generateHelpTable rps rps ! Suc 2) = Suc (length rps)
   \<and> generateHelpTable rps rps ! 0 ! Suc 0 = ''rock''
   \<and> generateHelpTable rps rps ! Suc 2 ! 0 = ''scissors''
   \<and> generateHelpTable rps rps ! Suc 2 ! Suc 0 = determineResult rps ''scissors'' ''rock''
   \<and> (generateHelpTable rps rps ! Suc 2 ! Suc 0 = ''Win'')
       = (determineWinner rps ''scissors'' ''rock'' = ''You win!'')
   \<and> (generateHelpTable rps rps ! Suc 2 ! Suc 0 = ''Lose'')
       = (determineWinner rps ''scissors'' ''rock'' = ''Computer wins!'')
   \<and> (generateHelpTable rps rps ! Suc 2 ! Suc 0 = ''Draw'')
       = (determineWinner rps ''scissors'' ''rock'' = ''Draw'')
   \<and> (determineResult rps ''scissors'' ''rock'' = ''Win'')
       = (determineWinner rps ''scissors'' ''rock'' = ''You win!'')
   \<and> (determineResult rps ''scissors'' ''rock'' = ''Lose'')
       = (determineWinner rps ''scissors'' ''rock'' = ''Computer wins!'')
   \<and> (determineResult rps ''scissors'' ''rock'' = ''Draw'')
       = (determineWinner rps ''scissors'' ''rock'' = ''Draw'')
   \<and> generateHelpTable rps rps ! Suc 2 ! Suc 0 = ''Lose''"
proof -
  have h: "distinct rps" "odd (length rps)" "3 \<le> length rps" "(2::nat) < length rps"
    "(0::nat) < length rps" "rps ! 2 = ''scissors''" "rps ! 0 = ''rock''"
    by simp_all
  have v: "generateHelpTable rps rps ! Suc 2 ! Suc 0 = ''Lose''"
    by (simp add: generateHelpTable_def comparator_defs)
  from generateHelpTable_agrees [OF h] h v show ?thesis by blast
qed

subsection \<open>C10: the window that precedes the first argument\<close>

text \<open>
  C10. For distinct positions \<open>i\<close> and \<open>j\<close> of a move set of distinct moves with odd length
  \<open>n \<ge> 3\<close>, \<open>determineWinner\<close> returns \<open>You win!\<close> for the moves at \<open>i\<close> and \<open>j\<close> exactly when
  \<open>(i - j - 1) mod n < (n - 1) / 2\<close>: a move beats the moves in the \<open>(n - 1) / 2\<close> positions
  that precede it cyclically.
\<close>

theorem determineWinner_preceding_window:
  assumes "distinct ms" and "odd (length ms)" and "3 \<le> length ms"
    and "i < length ms" and "j < length ms" and "i \<noteq> j"
  shows "(determineWinner ms (ms ! i) (ms ! j) = ''You win!'')
           = ((int i - int j - 1) mod int (length ms) < (int (length ms) - 1) div 2)"
proof -
  from assms(2) obtain h where n: "length ms = 2 * h + 1"
    and half: "(int (length ms) - 1) div 2 = int h"
    by (rule odd_length_half)
  have "((int j - int i - 1) mod int (length ms) < int h)
        = (\<not> (int i - int j - 1) mod int (length ms) < int h)"
    using n assms(4,5,6) by (intro window_flip) simp_all
  then show ?thesis
    unfolding half determineWinner_index [OF assms(1) n assms(4,5,6)] by simp
qed

theorem determineWinner_preceding_window_witness:
  "distinct rpsls \<and> odd (length rpsls) \<and> 3 \<le> length rpsls \<and> (0::nat) < length rpsls
   \<and> (4::nat) < length rpsls \<and> (0::nat) \<noteq> 4
   \<and> (determineWinner rpsls (rpsls ! 0) (rpsls ! 4) = ''You win!'')
       = ((int 0 - int 4 - 1) mod int (length rpsls) < (int (length rpsls) - 1) div 2)"
proof -
  have h: "distinct rpsls" "odd (length rpsls)" "3 \<le> length rpsls" "(0::nat) < length rpsls"
    "(4::nat) < length rpsls" "(0::nat) \<noteq> 4"
    by simp_all
  from determineWinner_preceding_window [OF h] h show ?thesis by simp
qed

end
